theory Spec2Isabelle
  imports Main "HOL-Library.Char_ord" "HOL-Library.List_Lexorder"
begin

section \<open>Strings\<close>

text \<open>
  A Python \<open>str\<close> is modelled by its UTF-8 encoding, a \<open>string\<close> (list of bytes).
  Every character the script inspects (\<open>[ ] ( ) # /\<close> and the scheme prefixes) is
  ASCII, and no byte of a multi-byte UTF-8 sequence is ASCII, so prefix tests, splitting
  and the regular expression behave on the bytes as they do on the code points; the
  byte-wise order of UTF-8 strings is the code-point order Python compares by.
\<close>

text \<open>\<open>s.startswith(p)\<close>\<close>

definition startswith :: "string \<Rightarrow> string \<Rightarrow> bool" where
  "startswith s p = (take (length p) s = p)"

text \<open>\<open>s.split(c)\<close> for a one-character separator: never the empty list.\<close>

fun split_on :: "char \<Rightarrow> string \<Rightarrow> string list" where
  "split_on c [] = [[]]"
| "split_on c (x # xs) =
     (if x = c then [] # split_on c xs
      else (case split_on c xs of
              [] \<Rightarrow> [[x]]
            | y # ys \<Rightarrow> (x # y) # ys))"

text \<open>\<open>s.split(c)[0]\<close>; the index is always in range.\<close>

definition split_first :: "char \<Rightarrow> string \<Rightarrow> string" where
  "split_first c s = (case split_on c s of [] \<Rightarrow> [] | y # ys \<Rightarrow> y)"

text \<open>\<open>s.lstrip(c)\<close> for a one-character set.\<close>

definition lstrip :: "char \<Rightarrow> string \<Rightarrow> string" where
  "lstrip c s = dropWhile (\<lambda>x. x = c) s"

text \<open>\<open>sep.join(xs)\<close>\<close>

fun join_str :: "string \<Rightarrow> string list \<Rightarrow> string" where
  "join_str sep [] = []"
| "join_str sep [x] = x"
| "join_str sep (x # y # ys) = x @ sep @ join_str sep (y # ys)"

text \<open>\<open>str(n)\<close> for an integer.\<close>

fun digits :: "nat \<Rightarrow> string" where
  "digits n =
     (if n < 10 then [char_of (48 + n)]
      else digits (n div 10) @ [char_of (48 + n mod 10)])"

declare digits.simps [simp del]

definition str_int :: "int \<Rightarrow> string" where
  "str_int i = (if i < 0 then CHR ''-'' # digits (nat (- i)) else digits (nat i))"

section \<open>Pure paths (\<open>pathlib.PurePosixPath\<close>)\<close>

text \<open>
  A path object is its root (\<open>''''\<close>, \<open>''/''\<close> or \<open>''//''\<close>) and its list of names.
  \<open>pathlib\<close> drops empty and \<open>.\<close> components when it parses a string, and keeps
  \<open>..\<close> components.
\<close>

datatype path = Path (p_root: string) (p_names: "string list")

datatype error = ValueError | RuntimeError | OSError

text \<open>\<open>_PosixFlavour.splitroot\<close>: exactly two leading slashes are kept as \<open>//\<close>.\<close>

definition splitroot :: "string \<Rightarrow> string \<times> string" where
  "splitroot part =
     (if part \<noteq> [] \<and> hd part = CHR ''/'' then
        (let stripped = lstrip CHR ''/'' part in
         if length part - length stripped = 2 then (''//'', stripped)
         else (''/'', stripped))
      else ([], part))"

text \<open>\<open>Path(s)\<close>: \<open>parse_parts\<close> on one string.\<close>

definition parse_path :: "string \<Rightarrow> path" where
  "parse_path s =
     (case splitroot s of
        (r, rel) \<Rightarrow> Path r (filter (\<lambda>x. x \<noteq> [] \<and> x \<noteq> ''.'') (split_on CHR ''/'' rel)))"

text \<open>\<open>p / s\<close>: a rooted right operand replaces the left one (\<open>join_parsed_parts\<close>).\<close>

definition joinpath :: "path \<Rightarrow> string \<Rightarrow> path" where
  "joinpath p s =
     (let q = parse_path s in
      if p_root q \<noteq> [] then q
      else Path (p_root p) (p_names p @ p_names q))"

text \<open>\<open>p.parent\<close>: the root and the empty path are their own parents.\<close>

definition parent :: "path \<Rightarrow> path" where
  "parent p = Path (p_root p) (butlast (p_names p))"

text \<open>\<open>str(p)\<close>\<close>

definition path_str :: "path \<Rightarrow> string" where
  "path_str p =
     (let s = p_root p @ join_str ''/'' (p_names p) in
      if s = [] then ''.'' else s)"

text \<open>\<open>p.relative_to(q)\<close>: raises \<open>ValueError\<close> unless \<open>q\<close> is a prefix of \<open>p\<close>.\<close>

definition relative_to :: "path \<Rightarrow> path \<Rightarrow> error + path" where
  "relative_to p q =
     (if p_root p = p_root q \<and> take (length (p_names q)) (p_names p) = p_names q
      then Inr (Path [] (drop (length (p_names q)) (p_names p)))
      else Inl ValueError)"

definition is_relative_to :: "path \<Rightarrow> path \<Rightarrow> bool" where
  "is_relative_to p q = (case relative_to p q of Inl e \<Rightarrow> False | Inr r \<Rightarrow> True)"

text \<open>
  Paths compare and hash by \<open>_cparts\<close>: the anchor followed by the names, as a list of
  strings ordered lexicographically.
\<close>

definition cparts :: "path \<Rightarrow> string list" where
  "cparts p = (if p_root p = [] then p_names p else p_root p # p_names p)"

section \<open>The filesystem\<close>

text \<open>
  The filesystem is the script's environment: one record holding the answers of the
  operating system, fixed for a run.
  \<^item> \<open>fs_glob pat\<close>: the names \<open>PROJECT_ROOT.glob(pat)\<close> finds, each relative to the
    project root, in the order and with the repetitions the enumeration produces;
  \<^item> \<open>fs_stat p\<close>: the outcome of \<open>os.stat(p)\<close>;
  \<^item> \<open>fs_read_text p\<close>: the text of the file, or the message of the exception that
    \<open>read_text(encoding='utf-8')\<close> raises (I/O or decoding);
  \<^item> \<open>fs_symlinks\<close>: the symbolic links, each the names of its absolute location
    and its target string (\<open>os.readlink\<close>);
  \<^item> \<open>fs_cwd\<close>: the names of the working directory.
\<close>

datatype stat_result =
    Regular       \<comment> \<open>a regular file\<close>
  | Other         \<comment> \<open>exists, not a regular file\<close>
  | Missing       \<comment> \<open>\<open>ENOENT\<close>, \<open>ENOTDIR\<close>, \<open>EBADF\<close> or an unencodable path\<close>
  | Loop          \<comment> \<open>\<open>ELOOP\<close>: too many symbolic links on the way\<close>
  | Failure       \<comment> \<open>any other \<open>OSError\<close>\<close>

record filesystem =
  fs_glob :: "string \<Rightarrow> string list list"
  fs_stat :: "path \<Rightarrow> stat_result"
  fs_read_text :: "path \<Rightarrow> string + string"
  fs_symlinks :: "(string list \<times> string) list"
  fs_cwd :: "string list"

text \<open>\<open>p.exists()\<close> and \<open>p.is_file()\<close>: errors outside the ignored set propagate.\<close>

definition exists :: "filesystem \<Rightarrow> path \<Rightarrow> error + bool" where
  "exists fs p =
     (case fs_stat fs p of
        Regular \<Rightarrow> Inr True
      | Other \<Rightarrow> Inr True
      | Missing \<Rightarrow> Inr False
      | Loop \<Rightarrow> Inr False
      | Failure \<Rightarrow> Inl OSError)"

definition is_file :: "filesystem \<Rightarrow> path \<Rightarrow> error + bool" where
  "is_file fs p =
     (case fs_stat fs p of
        Regular \<Rightarrow> Inr True
      | Other \<Rightarrow> Inr False
      | Missing \<Rightarrow> Inr False
      | Loop \<Rightarrow> Inr False
      | Failure \<Rightarrow> Inl OSError)"

subsection \<open>\<open>posixpath\<close> on strings\<close>

text \<open>\<open>posixpath.join(a, b)\<close>: an absolute second operand replaces the first.\<close>

definition posix_join :: "string \<Rightarrow> string \<Rightarrow> string" where
  "posix_join a b =
     (if startswith b ''/'' then b
      else if a = [] \<or> last a = CHR ''/'' then a @ b
      else a @ ''/'' @ b)"

text \<open>The string of an absolute path with the given names.\<close>

definition abs_str :: "string list \<Rightarrow> string" where
  "abs_str names = ''/'' @ join_str ''/'' names"

text \<open>
  \<open>posixpath.normpath\<close>: the loop over the components, then the function. In a rooted
  path a \<open>..\<close> at the root is dropped.
\<close>

fun normpath_comps :: "bool \<Rightarrow> string list \<Rightarrow> string list \<Rightarrow> string list" where
  "normpath_comps rooted new_comps [] = new_comps"
| "normpath_comps rooted new_comps (seg # segs) =
     (if seg = [] \<or> seg = ''.'' then normpath_comps rooted new_comps segs
      else if seg \<noteq> ''..'' \<or> (\<not> rooted \<and> new_comps = [])
              \<or> (new_comps \<noteq> [] \<and> last new_comps = ''..'')
      then normpath_comps rooted (new_comps @ [seg]) segs
      else if new_comps \<noteq> [] then normpath_comps rooted (butlast new_comps) segs
      else normpath_comps rooted new_comps segs)"

definition normpath :: "string \<Rightarrow> string" where
  "normpath path =
     (if path = [] then ''.''
      else
        (let initial_slashes =
               (if startswith path ''/'' then
                  (if startswith path ''//'' \<and> \<not> startswith path ''///'' then 2 else 1)
                else (0::nat));
             comps = normpath_comps (initial_slashes \<noteq> 0) [] (split_on CHR ''/'' path);
             s = replicate initial_slashes CHR ''/'' @ join_str ''/'' comps
         in if s = [] then ''.'' else s))"

subsection \<open>\<open>Path.resolve()\<close>\<close>

text \<open>
  \<open>posixpath._joinrealpath(path, rest, strict=False, seen)\<close>: \<open>path\<close> is the resolved
  prefix (its names from the root), \<open>rest\<close> the segments still to walk. The dictionary
  \<open>seen\<close> is held as its two parts: \<open>stack\<close>, the links whose entry is \<open>None\<close> (being
  resolved: exactly the links of the enclosing calls), and \<open>cache\<close>, the links already
  resolved with their values. \<open>os.lstat\<close> raises \<open>ValueError\<close> on a name with a NUL
  character. The function returns a pair \<open>(path, ok)\<close>: with \<open>ok\<close> the resolved names
  and the cache; without, when a link is met while it is being resolved, the string of that
  link joined with the rest of the path unchanged, which every enclosing call joins with
  its own rest.
\<close>

datatype walk_result =
    Resolved "string list" "(string list \<times> string list) list"
  | Unresolved string

definition pending :: "(string list \<times> string) list \<Rightarrow> string list list \<Rightarrow> nat" where
  "pending links stack = length (filter (\<lambda>k. k \<notin> set stack) (remdups (map fst links)))"

lemma pending_push:
  assumes "map_of links k = Some t" and "k \<notin> set stack"
  shows "pending links (k # stack) < pending links stack"
proof -
  let ?ks = "filter (\<lambda>x. x \<notin> set stack) (remdups (map fst links))"
  have "k \<in> set (map fst links)"
    using map_of_SomeD [OF assms(1)] by force
  with assms(2) have "k \<in> set ?ks" by simp
  then have "length (filter (\<lambda>x. x \<noteq> k) ?ks) < length ?ks"
    by (rule length_filter_less) simp
  moreover have "filter (\<lambda>x. x \<notin> set (k # stack)) (remdups (map fst links))
      = filter (\<lambda>x. x \<noteq> k) ?ks"
    by (simp add: conj_commute)
  ultimately show ?thesis by (simp add: pending_def)
qed

function joinrealpath ::
  "(string list \<times> string) list \<Rightarrow> string list list \<Rightarrow> (string list \<times> string list) list
    \<Rightarrow> string list \<Rightarrow> string list \<Rightarrow> error + walk_result"
where
  "joinrealpath links stack cache path [] = Inr (Resolved path cache)"
| "joinrealpath links stack cache path (name # rest) =
     (if name = [] \<or> name = ''.'' then joinrealpath links stack cache path rest
      else if name = ''..'' then joinrealpath links stack cache (butlast path) rest
      else if CHR 0x00 \<in> set name then Inl ValueError
      else
        (case map_of links (path @ [name]) of
           None \<Rightarrow> joinrealpath links stack cache (path @ [name]) rest
         | Some target \<Rightarrow>
             if path @ [name] \<in> set stack then
               Inr (Unresolved (posix_join (abs_str (path @ [name])) (join_str ''/'' rest)))
             else
               (case map_of cache (path @ [name]) of
                  Some p \<Rightarrow> joinrealpath links stack cache p rest
                | None \<Rightarrow>
                    (case joinrealpath links ((path @ [name]) # stack) cache
                            (if startswith target ''/'' then [] else path)
                            (split_on CHR ''/''
                               (if startswith target ''/'' then tl target else target)) of
                       Inl e \<Rightarrow> Inl e
                     | Inr (Unresolved s) \<Rightarrow>
                         Inr (Unresolved (posix_join s (join_str ''/'' rest)))
                     | Inr (Resolved p cache') \<Rightarrow>
                         joinrealpath links stack ((path @ [name], p) # cache') p rest))))"
  by pat_completeness auto
termination
  by (relation "measures [\<lambda>(links, stack, cache, path, rest). pending links stack,
                          \<lambda>(links, stack, cache, path, rest). length rest]")
     (auto simp: pending_push)

text \<open>
  \<open>p.resolve()\<close>: \<open>os.path.realpath(str(p))\<close> with an empty \<open>seen\<close>, which ends in
  \<open>normpath\<close>, then \<open>Path\<close> of the string and a \<open>stat()\<close> of that path: a NUL character
  in it raises \<open>ValueError\<close>, the error \<open>ELOOP\<close> raises \<open>RuntimeError\<close>, and any other
  outcome of \<open>stat()\<close> is ignored. A relative path is walked from the working directory
  (\<open>os.getcwd()\<close>).
\<close>

definition resolve :: "filesystem \<Rightarrow> path \<Rightarrow> error + path" where
  "resolve fs p =
     (case joinrealpath (fs_symlinks fs) [] []
             (if p_root p = [] then fs_cwd fs else []) (p_names p) of
        Inl e \<Rightarrow> Inl e
      | Inr r \<Rightarrow>
          (let q = parse_path (normpath (case r of
                                           Resolved names cache \<Rightarrow> abs_str names
                                         | Unresolved s \<Rightarrow> s))
           in if CHR 0x00 \<in> set (path_str q) then Inl ValueError
              else (case fs_stat fs q of
                      Loop \<Rightarrow> Inl RuntimeError
                    | _ \<Rightarrow> Inr q)))"

section \<open>The script \<open>scripts/audit-doc-links.py\<close>\<close>

definition PROJECT_ROOT :: path where
  "PROJECT_ROOT = parse_path ''/Users/matteoscurati/work/api.8004.dev''"

subsection \<open>Link classifier\<close>

definition is_external_link :: "string \<Rightarrow> bool" where
  "is_external_link link =
     (startswith link ''http://'' \<or> startswith link ''https://'' \<or> startswith link ''mailto:'')"

definition is_anchor_only :: "string \<Rightarrow> bool" where
  "is_anchor_only link = startswith link ''#''"

subsection \<open>Link extractor\<close>

text \<open>
  One attempt of the pattern \<^verbatim>\<open>\[([^\]]+)\]\(([^)]+)\)\<close> at the head of a string.
  Both groups are greedy runs of a negated class followed by the excluded character, so
  backtracking finds nothing shorter: the label runs to the first \<open>]\<close>, the target to
  the first \<open>)\<close>, and both must be non-empty. The result is the pair of groups and the
  text after the match.
\<close>

definition match_at :: "string \<Rightarrow> ((string \<times> string) \<times> string) option" where
  "match_at s =
     (case s of
        [] \<Rightarrow> None
      | c # r \<Rightarrow>
          if c \<noteq> CHR ''['' then None
          else
            (let text = takeWhile (\<lambda>x. x \<noteq> CHR '']'') r;
                 r1 = dropWhile (\<lambda>x. x \<noteq> CHR '']'') r
             in if text = [] then None
                else
                  (case r1 of
                     a # b # r2 \<Rightarrow>
                       if a = CHR '']'' \<and> b = CHR ''('' then
                         (let link = takeWhile (\<lambda>x. x \<noteq> CHR '')'') r2;
                              r3 = dropWhile (\<lambda>x. x \<noteq> CHR '')'') r2
                          in if link = [] then None
                             else (case r3 of
                                     [] \<Rightarrow> None
                                   | d # r4 \<Rightarrow> Some ((text, link), r4)))
                       else None
                   | _ \<Rightarrow> None)))"

lemma match_at_shorter:
  assumes "match_at s = Some (m, rest)"
  shows "length rest < length s"
proof -
  have drop_le: "length (dropWhile P xs) \<le> length xs" for P and xs :: string
    by (induction xs) auto
  from assms obtain c r a b r2 d where
    s: "s = c # r" and
    r1: "dropWhile (\<lambda>x. x \<noteq> CHR '']'') r = a # b # r2" and
    r3: "dropWhile (\<lambda>x. x \<noteq> CHR '')'') r2 = d # rest"
    by (auto simp: match_at_def Let_def split: list.splits if_splits)
  have "length (d # rest) \<le> length r2" using drop_le [of _ r2] r3 by metis
  moreover have "length (a # b # r2) \<le> length r" using drop_le [of _ r] r1 by metis
  ultimately show ?thesis using s by simp
qed

text \<open>
  \<open>re.finditer\<close>: the leftmost match from the current position, then on from its end;
  where the pattern does not match, one character further.
\<close>

function extract_links :: "string \<Rightarrow> (string \<times> string) list" where
  "extract_links [] = []"
| "extract_links (c # cs) =
     (case match_at (c # cs) of
        None \<Rightarrow> extract_links cs
      | Some (m, rest) \<Rightarrow> m # extract_links rest)"
  by pat_completeness auto
termination
  by (relation "measure length") (auto dest: match_at_shorter)

subsection \<open>Link resolver\<close>

definition resolve_link :: "filesystem \<Rightarrow> path \<Rightarrow> string \<Rightarrow> error + path option" where
  "resolve_link fs source_file link =
     (let link_path = split_first CHR ''#'' link in
      if link_path = [] then Inr None
      else
        (let source_dir = parent source_file in
         if startswith link_path ''/'' then
           Inr (Some (joinpath PROJECT_ROOT (lstrip CHR ''/'' link_path)))
         else
           (case resolve fs (joinpath source_dir link_path) of
              Inl e \<Rightarrow> Inl e
            | Inr target \<Rightarrow> Inr (Some target))))"

subsection \<open>Auditor\<close>

record broken_detail =
  bd_source :: path
  bd_link :: string
  bd_target :: path
  bd_text :: string

text \<open>
  The local variables of \<open>audit_documentation\<close>, the lines printed so far (one entry
  for each call of \<open>print\<close>), and \<open>tested\<close>: the paths whose existence has been
  tested (the calls of \<open>target.exists()\<close>), in order.
\<close>

record audit_state =
  total_files :: int
  total_links :: int
  broken_links :: int
  broken_details :: "broken_detail list"
  printed :: "string list"
  tested :: "path list"

definition print :: "string \<Rightarrow> audit_state \<Rightarrow> audit_state" where
  "print line st = st\<lparr>printed := printed st @ [line]\<rparr>"

text \<open>The non-ASCII characters of the messages, in UTF-8.\<close>

definition sym_magnifier :: string where
  "sym_magnifier = [CHR 0xF0, CHR 0x9F, CHR 0x94, CHR 0x8D]"

definition sym_cross :: string where
  "sym_cross = [CHR 0xE2, CHR 0x9D, CHR 0x8C]"

definition sym_chart :: string where
  "sym_chart = [CHR 0xF0, CHR 0x9F, CHR 0x93, CHR 0x8A]"

definition sym_check :: string where
  "sym_check = [CHR 0xE2, CHR 0x9C, CHR 0x85]"

definition sym_warning :: string where
  "sym_warning = [CHR 0xE2, CHR 0x9A, CHR 0xA0, CHR 0xEF, CHR 0xB8, CHR 0x8F]"

text \<open>
  \<open>target.relative_to(PROJECT_ROOT) if target.is_relative_to(PROJECT_ROOT) else target\<close>
\<close>

definition shown_target :: "path \<Rightarrow> error + path" where
  "shown_target target =
     (if is_relative_to target PROJECT_ROOT then relative_to target PROJECT_ROOT
      else Inr target)"

text \<open>The body of the loop over the links of one file.\<close>

definition process_link ::
  "filesystem \<Rightarrow> path \<Rightarrow> string \<times> string \<Rightarrow> audit_state \<Rightarrow> error + audit_state" where
  "process_link fs md_file item st =
     (case item of (text, link) \<Rightarrow>
        if is_external_link link then Inr st
        else if is_anchor_only link then Inr st
        else
          (let st1 = st\<lparr>total_links := total_links st + 1\<rparr> in
           case resolve_link fs md_file link of
             Inl e \<Rightarrow> Inl e
           | Inr None \<Rightarrow> Inr st1
           | Inr (Some target) \<Rightarrow>
               (case exists fs target of
                  Inl e \<Rightarrow> Inl e
                | Inr found \<Rightarrow>
                    (let st2 = st1\<lparr>tested := tested st1 @ [target]\<rparr> in
                     if \<not> found then
                       (case relative_to md_file PROJECT_ROOT of
                          Inl e \<Rightarrow> Inl e
                        | Inr src \<Rightarrow>
                            (case shown_target target of
                               Inl e \<Rightarrow> Inl e
                             | Inr shown \<Rightarrow>
                                 Inr (st2\<lparr>broken_links := broken_links st2 + 1,
                                          broken_details := broken_details st2 @
                                            [\<lparr>bd_source = src, bd_link = link,
                                              bd_target = shown, bd_text = text\<rparr>]\<rparr>)))
                     else Inr st2))))"

fun process_links ::
  "filesystem \<Rightarrow> path \<Rightarrow> (string \<times> string) list \<Rightarrow> audit_state \<Rightarrow> error + audit_state" where
  "process_links fs md_file [] st = Inr st"
| "process_links fs md_file (item # links) st =
     (case process_link fs md_file item st of
        Inl e \<Rightarrow> Inl e
      | Inr st' \<Rightarrow> process_links fs md_file links st')"

text \<open>The body of the loop over the markdown files.\<close>

definition process_file :: "filesystem \<Rightarrow> path \<Rightarrow> audit_state \<Rightarrow> error + audit_state" where
  "process_file fs md_file st =
     (case is_file fs md_file of
        Inl e \<Rightarrow> Inl e
      | Inr regular \<Rightarrow>
          if \<not> regular then Inr st
          else
            (let st1 = st\<lparr>total_files := total_files st + 1\<rparr> in
             case fs_read_text fs md_file of
               Inl e \<Rightarrow>
                 (case relative_to md_file PROJECT_ROOT of
                    Inl e' \<Rightarrow> Inl e'
                  | Inr rel \<Rightarrow>
                      Inr (print (sym_warning @ ''  Could not read '' @ path_str rel
                                    @ '': '' @ e) st1))
             | Inr content \<Rightarrow> process_links fs md_file (extract_links content) st1))"

fun process_files :: "filesystem \<Rightarrow> path list \<Rightarrow> audit_state \<Rightarrow> error + audit_state" where
  "process_files fs [] st = Inr st"
| "process_files fs (md_file # files) st =
     (case process_file fs md_file st of
        Inl e \<Rightarrow> Inl e
      | Inr st' \<Rightarrow> process_files fs files st')"

text \<open>The markdown file set.\<close>

definition patterns :: "path list" where
  "patterns =
     [joinpath (joinpath (joinpath PROJECT_ROOT ''docs'') ''**'') ''*.md'',
      joinpath PROJECT_ROOT ''*.md'']"

text \<open>\<open>PROJECT_ROOT.glob(pat)\<close>: the project root extended by each name found.\<close>

definition root_glob :: "filesystem \<Rightarrow> string \<Rightarrow> path list" where
  "root_glob fs pat =
     map (\<lambda>rel. Path (p_root PROJECT_ROOT) (p_names PROJECT_ROOT @ rel)) (fs_glob fs pat)"

fun collect :: "filesystem \<Rightarrow> path list \<Rightarrow> path list \<Rightarrow> error + path list" where
  "collect fs [] md = Inr md"
| "collect fs (pattern # ps) md =
     (case relative_to pattern PROJECT_ROOT of
        Inl e \<Rightarrow> Inl e
      | Inr rel \<Rightarrow> collect fs ps (md @ root_glob fs (path_str rel)))"

text \<open>\<open>sorted(set(md_files))\<close>\<close>

definition md_files :: "filesystem \<Rightarrow> error + path list" where
  "md_files fs =
     (case collect fs patterns [] of
        Inl e \<Rightarrow> Inl e
      | Inr md \<Rightarrow> Inr (sort_key cparts (remdups md)))"

text \<open>The report.\<close>

definition detail_lines :: "broken_detail \<Rightarrow> string list" where
  "detail_lines detail =
     [''  File: '' @ path_str (bd_source detail),
      ''  Link: ['' @ bd_text detail @ '']('' @ bd_link detail @ '')'',
      ''  Expected: '' @ path_str (bd_target detail),
      []]"

definition print_broken :: "audit_state \<Rightarrow> audit_state" where
  "print_broken st =
     (if broken_details st \<noteq> [] then
        st\<lparr>printed := printed st
              @ [sym_cross @ '' BROKEN LINKS FOUND:'' @ [CHR 0x0A]]
              @ concat (map detail_lines (broken_details st))\<rparr>
      else st)"

definition print_summary :: "audit_state \<Rightarrow> audit_state" where
  "print_summary st =
     st\<lparr>printed := printed st
           @ [replicate 60 CHR ''='',
              sym_chart @ '' Summary:'',
              ''  Files scanned: '' @ str_int (total_files st),
              ''  Links checked: '' @ str_int (total_links st),
              ''  Broken links: '' @ str_int (broken_links st),
              []]\<rparr>"

definition initial_state :: audit_state where
  "initial_state =
     \<lparr>total_files = 0, total_links = 0, broken_links = 0, broken_details = [],
      printed = [sym_magnifier @ '' Documentation Link Audit'', replicate 60 CHR ''='', []],
      tested = []\<rparr>"

text \<open>The scan: everything up to the report.\<close>

definition scan :: "filesystem \<Rightarrow> error + audit_state" where
  "scan fs =
     (case md_files fs of
        Inl e \<Rightarrow> Inl e
      | Inr files \<Rightarrow> process_files fs files initial_state)"

text \<open>The report and the exit code, from the state the scan ends in.\<close>

definition finish :: "audit_state \<Rightarrow> int \<times> audit_state" where
  "finish st =
     (let st1 = print_summary (print_broken st) in
      if broken_links st1 = 0 then (0, print (sym_check @ '' All links are valid!'') st1)
      else (1, print (sym_warning @ ''  Found '' @ str_int (broken_links st1)
                        @ '' broken link(s)'') st1))"

definition audit_documentation :: "filesystem \<Rightarrow> error + int \<times> audit_state" where
  "audit_documentation fs =
     (case scan fs of
        Inl e \<Rightarrow> Inl e
      | Inr st \<Rightarrow> Inr (finish st))"

subsection \<open>Views of the state\<close>

text \<open>What the checks of a link leave in the state: the two link counters and the tests made.\<close>

definition checks :: "audit_state \<Rightarrow> int \<times> int \<times> path list" where
  "checks st = (total_links st, broken_links st, tested st)"

text \<open>What the links processed so far have left in the state.\<close>

definition findings :: "audit_state \<Rightarrow> int \<times> int \<times> broken_detail list \<times> path list" where
  "findings st = (total_links st, broken_links st, broken_details st, tested st)"

subsection \<open>Canonical paths\<close>




text \<open>
  No name on the walk of \<open>rest\<close> from \<open>path\<close> is a symbolic link: the walk of
  \<open>normalize_names\<close>, looking each name up as \<open>joinrealpath\<close> does.
\<close>

fun no_link_on_walk ::
  "(string list \<times> string) list \<Rightarrow> string list \<Rightarrow> string list \<Rightarrow> bool" where
  "no_link_on_walk links path [] = True"
| "no_link_on_walk links path (name # rest) =
     (if name = [] \<or> name = ''.'' then no_link_on_walk links path rest
      else if name = ''..'' then no_link_on_walk links (butlast path) rest
      else map_of links (path @ [name]) = None \<and> no_link_on_walk links (path @ [name]) rest)"


section \<open>Example filesystems\<close>

text \<open>
  A project with \<open>README.md\<close>, which links to \<open>docs/a.md\<close>, and \<open>docs/a.md\<close>, which
  links to a file that does not exist.
\<close>

definition fs_example :: filesystem where
  "fs_example =
     \<lparr>fs_glob = (\<lambda>pat. if pat = ''docs/**/*.md'' then [[''docs'', ''a.md'']]
                       else if pat = ''*.md'' then [[''README.md'']] else []),
      fs_stat = (\<lambda>p. if p = Path ''/'' (p_names PROJECT_ROOT @ [''docs'', ''a.md''])
                        \<or> p = Path ''/'' (p_names PROJECT_ROOT @ [''README.md''])
                      then Regular else Missing),
      fs_read_text = (\<lambda>p. if p = Path ''/'' (p_names PROJECT_ROOT @ [''docs'', ''a.md''])
                           then Inr ''[Missing](missing.md)''
                           else Inr ''[Guide](docs/a.md)''),
      fs_symlinks = [], fs_cwd = []\<rparr>"

text \<open>A project whose only markdown file, \<open>bad.md\<close>, cannot be decoded.\<close>

definition fs_unreadable :: filesystem where
  "fs_unreadable =
     \<lparr>fs_glob = (\<lambda>pat. if pat = ''*.md'' then [[''bad.md'']] else []),
      fs_stat = (\<lambda>p. if p = Path ''/'' (p_names PROJECT_ROOT @ [''bad.md''])
                      then Regular else Missing),
      fs_read_text = (\<lambda>p. Inl ''invalid start byte''),
      fs_symlinks = [], fs_cwd = []\<rparr>"

text \<open>A project whose only enumerated path, \<open>gone.md\<close>, is no regular file when tested.\<close>

definition fs_vanished :: filesystem where
  "fs_vanished =
     \<lparr>fs_glob = (\<lambda>pat. if pat = ''*.md'' then [[''gone.md'']] else []),
      fs_stat = (\<lambda>p. Missing),
      fs_read_text = (\<lambda>p. Inl ''No such file or directory''),
      fs_symlinks = [], fs_cwd = []\<rparr>"

text \<open>
  Two enumerations of one file tree: \<open>docs/a.md\<close> links to \<open>docs/b.md\<close> and to a missing
  file; the second enumeration lists the same files in another order, one of them twice.
\<close>

definition fs_listing1 :: filesystem where
  "fs_listing1 =
     \<lparr>fs_glob = (\<lambda>pat. if pat = ''docs/**/*.md'' then [[''docs'', ''b.md''], [''docs'', ''a.md'']]
                       else []),
      fs_stat = (\<lambda>p. if p = Path ''/'' (p_names PROJECT_ROOT @ [''docs'', ''a.md''])
                        \<or> p = Path ''/'' (p_names PROJECT_ROOT @ [''docs'', ''b.md''])
                      then Regular else Missing),
      fs_read_text = (\<lambda>p. if p = Path ''/'' (p_names PROJECT_ROOT @ [''docs'', ''a.md''])
                           then Inr ''[B](b.md) and [C](c.md)''
                           else Inr ''[Up](../nothing.md)''),
      fs_symlinks = [], fs_cwd = []\<rparr>"

definition fs_listing2 :: filesystem where
  "fs_listing2 =
     fs_listing1\<lparr>fs_glob := (\<lambda>pat. if pat = ''docs/**/*.md''
                                    then [[''docs'', ''a.md''], [''docs'', ''b.md''], [''docs'', ''a.md'']]
                                    else [])\<rparr>"



section \<open>Basic facts\<close>

lemma PROJECT_ROOT_eq:
  "PROJECT_ROOT = Path ''/'' [''Users'', ''matteoscurati'', ''work'', ''api.8004.dev'']"
  by (simp add: PROJECT_ROOT_def parse_path_def splitroot_def lstrip_def)

lemma split_first_takeWhile: "split_first c s = takeWhile (\<lambda>x. x \<noteq> c) s"
proof -
  have "split_on c s \<noteq> [] \<and> hd (split_on c s) = takeWhile (\<lambda>x. x \<noteq> c) s"
    by (induction s) (auto split: list.splits)
  then show ?thesis by (auto simp: split_first_def split: list.splits)
qed

lemma relative_to_under_root:
  "relative_to (Path (p_root PROJECT_ROOT) (p_names PROJECT_ROOT @ rel)) PROJECT_ROOT = Inr (Path [] rel)"
  by (simp add: relative_to_def)

lemma shown_target_total: "\<exists>shown. shown_target target = Inr shown"
  by (auto simp: shown_target_def is_relative_to_def split: sum.splits)

lemma match_at_groups:
  assumes "match_at s = Some ((text, link), rest)"
  shows "text \<noteq> [] \<and> link \<noteq> [] \<and> CHR '']'' \<notin> set text \<and> CHR '')'' \<notin> set link"
  using assms
  by (auto simp: match_at_def Let_def split: list.splits if_splits dest: set_takeWhileD)

lemma extract_links_groups:
  "(text, link) \<in> set (extract_links s) \<Longrightarrow>
     text \<noteq> [] \<and> link \<noteq> [] \<and> CHR '']'' \<notin> set text \<and> CHR '')'' \<notin> set link"
proof (induction s rule: extract_links.induct)
  case 1
  then show ?case by simp
next
  case (2 c cs)
  show ?case
  proof (cases "match_at (c # cs)")
    case None
    with 2 show ?thesis by simp
  next
    case (Some r)
    obtain m rest where r: "r = (m, rest)" by (cases r)
    from "2.prems" Some r
    have "(text, link) = m \<or> (text, link) \<in> set (extract_links rest)" by auto
    then show ?thesis
    proof
      assume "(text, link) = m"
      with Some r have "match_at (c # cs) = Some ((text, link), rest)" by simp
      then show ?thesis by (rule match_at_groups)
    next
      assume "(text, link) \<in> set (extract_links rest)"
      with "2.IH"(2) [OF Some r [symmetric]] show ?thesis .
    qed
  qed
qed

section \<open>Invariants of the scan\<close>

lemma process_links_invariant:
  assumes step: "\<And>item s s'. item \<in> set links \<Longrightarrow> P s \<Longrightarrow> process_link fs md_file item s = Inr s' \<Longrightarrow> P s'"
    and "P st" and "process_links fs md_file links st = Inr st'"
  shows "P st'"
  using assms
proof (induction links arbitrary: st)
  case Nil
  then show ?case by simp
next
  case (Cons item links)
  from Cons.prems(3) obtain s1 where
    s1: "process_link fs md_file item st = Inr s1" and
    rest: "process_links fs md_file links s1 = Inr st'"
    by (auto split: sum.splits)
  have "P s1" using Cons.prems(1) [of item st s1] Cons.prems(2) s1 by simp
  show ?case
  proof (rule Cons.IH [OF _ \<open>P s1\<close> rest])
    fix i s s'
    assume "i \<in> set links" "P s" "process_link fs md_file i s = Inr s'"
    then show "P s'" using Cons.prems(1) [of i s s'] by simp
  qed
qed

lemma process_file_invariant:
  assumes step: "\<And>item s s'. item \<in> set (case fs_read_text fs md_file of Inl e \<Rightarrow> [] | Inr content \<Rightarrow> extract_links content)
        \<Longrightarrow> P s \<Longrightarrow> process_link fs md_file item s = Inr s' \<Longrightarrow> P s'"
    and files: "\<And>s n. P s \<Longrightarrow> P (s\<lparr>total_files := n\<rparr>)"
    and prints: "\<And>s ls. P s \<Longrightarrow> P (s\<lparr>printed := ls\<rparr>)"
    and "P st" and run: "process_file fs md_file st = Inr st'"
  shows "P st'"
proof (cases "fs_read_text fs md_file")
  case (Inl e)
  with run have "st' = st \<or> (\<exists>l. st' = print l (st\<lparr>total_files := total_files st + 1\<rparr>))"
    by (auto simp: process_file_def Let_def split: sum.splits if_splits)
  with \<open>P st\<close> files prints show ?thesis by (auto simp: print_def)
next
  case (Inr content)
  with run have "st' = st \<or>
      process_links fs md_file (extract_links content) (st\<lparr>total_files := total_files st + 1\<rparr>) = Inr st'"
    by (auto simp: process_file_def Let_def split: sum.splits if_splits)
  then show ?thesis
  proof
    assume "st' = st" with \<open>P st\<close> show ?thesis by simp
  next
    assume r: "process_links fs md_file (extract_links content) (st\<lparr>total_files := total_files st + 1\<rparr>) = Inr st'"
    show ?thesis
    proof (rule process_links_invariant [OF _ _ r])
      show "P (st\<lparr>total_files := total_files st + 1\<rparr>)" using \<open>P st\<close> files by simp
    next
      fix item s s'
      assume "item \<in> set (extract_links content)" "P s" "process_link fs md_file item s = Inr s'"
      with step [of item s s'] Inr show "P s'" by simp
    qed
  qed
qed

lemma process_files_invariant:
  assumes step: "\<And>md_file content item s s'. item \<in> set (extract_links content)
        \<Longrightarrow> P s \<Longrightarrow> process_link fs md_file item s = Inr s' \<Longrightarrow> P s'"
    and files: "\<And>s n. P s \<Longrightarrow> P (s\<lparr>total_files := n\<rparr>)"
    and prints: "\<And>s ls. P s \<Longrightarrow> P (s\<lparr>printed := ls\<rparr>)"
    and "P st" and "process_files fs mds st = Inr st'"
  shows "P st'"
  using assms(4,5)
proof (induction mds arbitrary: st)
  case Nil
  then show ?case by simp
next
  case (Cons md_file mds)
  from Cons.prems(2) obtain s1 where
    s1: "process_file fs md_file st = Inr s1" and
    rest: "process_files fs mds s1 = Inr st'"
    by (auto split: sum.splits)
  have "P s1"
  proof (rule process_file_invariant [OF _ files prints Cons.prems(1) s1])
    fix item s s'
    assume "item \<in> set (case fs_read_text fs md_file of Inl e \<Rightarrow> [] | Inr content \<Rightarrow> extract_links content)"
      and "P s" and "process_link fs md_file item s = Inr s'"
    then show "P s'" using step [of item _ s md_file s'] by (auto split: sum.splits)
  qed
  with Cons.IH [of s1] rest show ?case by simp
qed



lemma finish_code: "fst (finish st) = (if broken_links st = 0 then 0 else 1)"
  by (simp add: finish_def Let_def print_summary_def print_broken_def print_def)

lemma finish_state:
  "total_files (snd (finish st)) = total_files st \<and>
   total_links (snd (finish st)) = total_links st \<and>
   broken_links (snd (finish st)) = broken_links st \<and>
   broken_details (snd (finish st)) = broken_details st \<and>
   tested (snd (finish st)) = tested st"
  by (simp add: finish_def Let_def print_summary_def print_broken_def print_def)

section \<open>The claims\<close>



subsection \<open>Skipped links\<close>

lemma process_link_skip:
  "is_external_link link \<or> is_anchor_only link \<Longrightarrow> process_link fs md_file (text, link) st = Inr st"
  by (auto simp: process_link_def)

text \<open>
  C2. A link whose target starts with \<open>http://\<close>, \<open>https://\<close>, \<open>mailto:\<close> or \<open>#\<close>
  leaves the whole state of the audit as it was, in every filesystem: it is not resolved,
  no existence test is made, and the counters of checked and broken links and the
  broken-link records are unchanged. A list of links gives the same result with such a
  link as without it.
\<close>

theorem external_and_anchor_links_skipped:
  assumes "startswith link ''http://'' \<or> startswith link ''https://''
           \<or> startswith link ''mailto:'' \<or> startswith link ''#''"
  shows "process_link fs md_file (text, link) st = Inr st \<and>
         process_links fs md_file (before @ (text, link) # after) st
           = process_links fs md_file (before @ after) st"
proof -
  from assms have skip: "is_external_link link \<or> is_anchor_only link"
    by (auto simp: is_external_link_def is_anchor_only_def)
  have "process_links fs md_file (before @ (text, link) # after) s
          = process_links fs md_file (before @ after) s" for s
  proof (induction before arbitrary: s)
    case Nil
    show ?case using process_link_skip [OF skip] by simp
  next
    case (Cons item before)
    then show ?case by (simp split: sum.splits)
  qed
  with process_link_skip [OF skip] show ?thesis by simp
qed

theorem external_and_anchor_links_skipped_witness:
  "process_link fs_example (Path ''/'' [''docs'', ''a.md''])
       (''External'', ''https://example.com/x'') initial_state = Inr initial_state \<and>
   process_links fs_example (Path ''/'' [''docs'', ''a.md''])
       ([(''Section'', ''#intro'')] @ (''External'', ''https://example.com/x'') # []) initial_state
     = process_links fs_example (Path ''/'' [''docs'', ''a.md''])
       ([(''Section'', ''#intro'')] @ []) initial_state"
  using external_and_anchor_links_skipped
    [of "''https://example.com/x''" fs_example "Path ''/'' [''docs'', ''a.md'']" "''External''"
        initial_state "[(''Section'', ''#intro'')]" "[]"]
  by (simp add: startswith_def)

subsection \<open>Links that reach resolution\<close>

lemma resolve_link_None_iff:
  "resolve_link fs source_file link = Inr None \<longleftrightarrow> takeWhile (\<lambda>x. x \<noteq> CHR ''#'') link = []"
  by (auto simp: resolve_link_def Let_def split_first_takeWhile split: sum.splits)

lemma path_portion_nonempty:
  assumes "link \<noteq> []" and "\<not> is_anchor_only link"
  shows "takeWhile (\<lambda>x. x \<noteq> CHR ''#'') link \<noteq> []"
  using assms by (cases link) (auto simp: is_anchor_only_def startswith_def)

lemma process_link_tested_count:
  assumes "process_link fs md_file (text, link) s = Inr s'"
    and "link \<noteq> []"
    and "total_links s = int (length (tested s))"
  shows "total_links s' = int (length (tested s'))"
proof (cases "is_external_link link \<or> is_anchor_only link")
  case True
  from process_link_skip [OF True, of fs md_file "text" s] assms show ?thesis by simp
next
  case False
  with assms(2) have "resolve_link fs md_file link \<noteq> Inr None"
    using path_portion_nonempty [of link] by (simp add: resolve_link_None_iff)
  with assms False show ?thesis
    by (auto simp: process_link_def Let_def split: sum.splits option.splits if_splits)
qed

lemma scan_tested_count:
  assumes "scan fs = Inr st"
  shows "total_links st = int (length (tested st))"
proof -
  from assms obtain mds where run: "process_files fs mds initial_state = Inr st"
    by (auto simp: scan_def split: sum.splits)
  show ?thesis
  proof (rule process_files_invariant
      [where P = "\<lambda>s. total_links s = int (length (tested s))", OF _ _ _ _ run])
    fix md_file content item s s'
    assume item: "item \<in> set (extract_links content)"
      and inv: "total_links s = int (length (tested s))"
      and step: "process_link fs md_file item s = Inr s'"
    obtain t l where tl: "item = (t, l)" by (cases item)
    with item have "l \<noteq> []" using extract_links_groups [of t l content] by simp
    with process_link_tested_count [of fs md_file t l s s'] step inv tl
    show "total_links s' = int (length (tested s'))" by simp
  qed (simp_all add: initial_state_def)
qed

text \<open>
  C10. A link extracted by the pattern that is neither external nor anchor-only has a
  non-empty target without \<open>)\<close>, and \<open>resolve_link\<close> does not return none on it. So in
  every completed scan, and in every completed run, the counter of checked links is the
  number of existence tests made.
\<close>

theorem extracted_links_always_resolve:
  "((text, link) \<in> set (extract_links content) \<and> \<not> is_external_link link \<and> \<not> is_anchor_only link
      \<longrightarrow> link \<noteq> [] \<and> CHR '')'' \<notin> set link \<and> resolve_link fs md_file link \<noteq> Inr None) \<and>
   (scan fs = Inr st \<longrightarrow> total_links st = int (length (tested st))) \<and>
   (audit_documentation fs = Inr (code, st') \<longrightarrow> total_links st' = int (length (tested st')))"
proof -
  have a: "link \<noteq> [] \<and> CHR '')'' \<notin> set link \<and> resolve_link fs md_file link \<noteq> Inr None"
    if "(text, link) \<in> set (extract_links content)" and "\<not> is_anchor_only link"
    using extract_links_groups [OF that(1)] path_portion_nonempty [of link] that(2)
    by (simp add: resolve_link_None_iff)
  have c: "total_links st' = int (length (tested st'))" if "audit_documentation fs = Inr (code, st')"
  proof -
    from that obtain s where s: "scan fs = Inr s" and fin: "finish s = (code, st')"
      by (auto simp: audit_documentation_def split: sum.splits)
    from fin finish_state [of s] scan_tested_count [OF s] show ?thesis by simp
  qed
  from a c scan_tested_count show ?thesis by blast
qed

theorem extracted_links_always_resolve_witness:
  "(''Missing'', ''missing.md'') \<in> set (extract_links ''[Missing](missing.md)'') \<and>
   \<not> is_external_link ''missing.md'' \<and> \<not> is_anchor_only ''missing.md'' \<and>
   resolve_link fs_example (Path ''/'' (p_names PROJECT_ROOT @ [''docs'', ''a.md''])) ''missing.md'' \<noteq> Inr None \<and>
   (\<exists>st. audit_documentation fs_example = Inr (1, st) \<and> total_links st = 2 \<and> length (tested st) = 2)"
proof -
  have run: "map_sum id (\<lambda>r. (fst r, total_links (snd r))) (audit_documentation fs_example) = Inr (1, 2)"
    by code_simp
  then obtain st where st: "audit_documentation fs_example = Inr (1, st)" and n: "total_links st = 2"
    by (cases "audit_documentation fs_example") auto
  have pre: "(''Missing'', ''missing.md'') \<in> set (extract_links ''[Missing](missing.md)'') \<and>
      \<not> is_external_link ''missing.md'' \<and> \<not> is_anchor_only ''missing.md''"
    by code_simp
  from extracted_links_always_resolve
    [of "''Missing''" "''missing.md''" "''[Missing](missing.md)''" fs_example
        "Path ''/'' (p_names PROJECT_ROOT @ [''docs'', ''a.md''])" st 1 st] pre st n
  show ?thesis by auto
qed

subsection \<open>Fragments\<close>

lemma startswith_append_other:
  assumes "c \<notin> set pre"
  shows "startswith (p @ c # f) pre = startswith p pre"
proof (cases "length pre \<le> length p")
  case True
  then show ?thesis by (simp add: startswith_def)
next
  case False
  then have "length pre - length p = Suc (length pre - Suc (length p))" by simp
  then have "take (length pre) (p @ c # f) = p @ c # take (length pre - Suc (length p)) f"
    using False by simp
  moreover have "p @ c # take (length pre - Suc (length p)) f \<noteq> pre"
    using assms by (metis in_set_conv_decomp)
  moreover have "take (length pre) p \<noteq> pre"
  proof
    assume "take (length pre) p = pre"
    then have "length (take (length pre) p) = length pre" by simp
    with False show False by simp
  qed
  ultimately show ?thesis by (simp add: startswith_def)
qed

lemma is_external_link_fragment:
  "is_external_link (p @ CHR ''#'' # fragment) = is_external_link p"
  by (simp add: is_external_link_def startswith_append_other)

lemma is_anchor_only_fragment:
  "p \<noteq> [] \<Longrightarrow> is_anchor_only (p @ CHR ''#'' # fragment) = is_anchor_only p"
  by (cases p) (simp_all add: is_anchor_only_def startswith_def)

lemma resolve_link_path_portion:
  "resolve_link fs source_file link
     = resolve_link fs source_file (takeWhile (\<lambda>x. x \<noteq> CHR ''#'') link)"
  by (simp add: resolve_link_def split_first_takeWhile)

lemma resolve_link_fragment:
  assumes "CHR ''#'' \<notin> set p"
  shows "resolve_link fs source_file (p @ CHR ''#'' # fragment) = resolve_link fs source_file p"
proof -
  from assms have all: "\<And>x. x \<in> set p \<Longrightarrow> x \<noteq> CHR ''#''" by auto
  then have "takeWhile (\<lambda>x. x \<noteq> CHR ''#'') (p @ CHR ''#'' # fragment) = p"
    by simp
  moreover from all have "takeWhile (\<lambda>x. x \<noteq> CHR ''#'') p = p"
    by (simp add: takeWhile_eq_all_conv)
  ultimately show ?thesis
    using resolve_link_path_portion [of fs source_file "p @ CHR ''#'' # fragment"]
      resolve_link_path_portion [of fs source_file p] by simp
qed

lemma process_link_fragment:
  assumes "CHR ''#'' \<notin> set p" and "p \<noteq> []"
  shows "map_sum id checks (process_link fs md_file (text, p @ CHR ''#'' # fragment) st)
       = map_sum id checks (process_link fs md_file (text, p) st)"
  using assms
  by (simp add: process_link_def is_external_link_fragment is_anchor_only_fragment
        resolve_link_fragment Let_def checks_def split: sum.splits option.splits)

text \<open>
  C5. \<open>resolve_link\<close> works on the part of the link before the first \<open>#\<close> only: its
  result is the result on that part, a fragment appended to a \<open>#\<close>-free path changes
  nothing, and an empty part before the first \<open>#\<close> gives none. The fragment is not
  checked by the auditor either: with or without it, a link with a non-empty path leaves
  the same counters and causes the same existence tests.
\<close>

theorem resolve_link_ignores_fragment:
  "resolve_link fs source_file link
     = resolve_link fs source_file (takeWhile (\<lambda>x. x \<noteq> CHR ''#'') link) \<and>
   (CHR ''#'' \<notin> set p \<longrightarrow>
      resolve_link fs source_file (p @ CHR ''#'' # fragment) = resolve_link fs source_file p) \<and>
   (takeWhile (\<lambda>x. x \<noteq> CHR ''#'') link = [] \<longrightarrow> resolve_link fs source_file link = Inr None) \<and>
   (CHR ''#'' \<notin> set p \<and> p \<noteq> [] \<longrightarrow>
      map_sum id checks (process_link fs source_file (text, p @ CHR ''#'' # fragment) st)
        = map_sum id checks (process_link fs source_file (text, p) st))"
proof (intro conjI impI)
  show "resolve_link fs source_file link
      = resolve_link fs source_file (takeWhile (\<lambda>x. x \<noteq> CHR ''#'') link)"
    by (rule resolve_link_path_portion)
next
  assume "CHR ''#'' \<notin> set p"
  then show "resolve_link fs source_file (p @ CHR ''#'' # fragment) = resolve_link fs source_file p"
    by (rule resolve_link_fragment)
next
  assume "takeWhile (\<lambda>x. x \<noteq> CHR ''#'') link = []"
  then show "resolve_link fs source_file link = Inr None"
    by (simp only: resolve_link_None_iff)
next
  assume "CHR ''#'' \<notin> set p \<and> p \<noteq> []"
  then show "map_sum id checks (process_link fs source_file (text, p @ CHR ''#'' # fragment) st)
      = map_sum id checks (process_link fs source_file (text, p) st)"
    using process_link_fragment [of p fs source_file "text" fragment st] by simp
qed

theorem resolve_link_ignores_fragment_witness:
  "resolve_link fs_example (Path ''/'' (p_names PROJECT_ROOT @ [''docs'', ''a.md''])) ''b.md#section''
     = resolve_link fs_example (Path ''/'' (p_names PROJECT_ROOT @ [''docs'', ''a.md''])) ''b.md'' \<and>
   resolve_link fs_example (Path ''/'' (p_names PROJECT_ROOT @ [''docs'', ''a.md''])) ''#section'' = Inr None \<and>
   map_sum id checks (process_link fs_example (Path ''/'' (p_names PROJECT_ROOT @ [''docs'', ''a.md'']))
       (''B'', ''b.md#section'') initial_state)
     = map_sum id checks (process_link fs_example (Path ''/'' (p_names PROJECT_ROOT @ [''docs'', ''a.md'']))
       (''B'', ''b.md'') initial_state)"
proof -
  have pre: "CHR ''#'' \<notin> set ''b.md'' \<and> ''b.md'' \<noteq> [] \<and>
      takeWhile (\<lambda>x. x \<noteq> CHR ''#'') ''#section'' = []"
    by simp
  from resolve_link_ignores_fragment
      [of fs_example "Path ''/'' (p_names PROJECT_ROOT @ [''docs'', ''a.md''])" "''#section''"
          "''b.md''" "''section''" "''B''" initial_state] pre
  show ?thesis by (simp add: resolve_link_def split_first_def)
qed

subsection \<open>Root-relative links\<close>

lemma parse_path_relative:
  assumes "\<not> startswith s ''/''"
  shows "parse_path s = Path [] (filter (\<lambda>x. x \<noteq> [] \<and> x \<noteq> ''.'') (split_on CHR ''/'' s))"
  using assms by (cases s) (auto simp: parse_path_def splitroot_def startswith_def)

lemma lstrip_hd: "lstrip c s \<noteq> [] \<Longrightarrow> hd (lstrip c s) \<noteq> c"
  unfolding lstrip_def using hd_dropWhile [of "\<lambda>x. x = c" s] by simp

lemma lstrip_not_startswith: "\<not> startswith (lstrip c s) [c]"
proof (cases "lstrip c s")
  case Nil
  then show ?thesis by (simp add: startswith_def)
next
  case (Cons a as)
  then have "a \<noteq> c" using lstrip_hd [of c s] by simp
  with Cons show ?thesis by (simp add: startswith_def)
qed

lemma parse_path_rooted:
  assumes "startswith s ''/''"
  shows "p_root (parse_path s) \<noteq> [] \<and>
         p_names (parse_path s) = p_names (parse_path (lstrip CHR ''/'' s))"
proof -
  have rel: "parse_path (lstrip CHR ''/'' s)
      = Path [] (filter (\<lambda>x. x \<noteq> [] \<and> x \<noteq> ''.'') (split_on CHR ''/'' (lstrip CHR ''/'' s)))"
    using lstrip_not_startswith [of "CHR ''/''" s] by (rule parse_path_relative)
  from assms obtain r where s: "s = CHR ''/'' # r"
    by (cases s) (auto simp: startswith_def)
  have "splitroot s = (''/'', lstrip CHR ''/'' s) \<or> splitroot s = (''//'', lstrip CHR ''/'' s)"
    by (simp add: s splitroot_def Let_def)
  then have "p_root (parse_path s) \<noteq> [] \<and>
      p_names (parse_path s)
        = filter (\<lambda>x. x \<noteq> [] \<and> x \<noteq> ''.'') (split_on CHR ''/'' (lstrip CHR ''/'' s))"
    by (auto simp: parse_path_def)
  with rel show ?thesis by simp
qed

lemma joinpath_root_relative:
  assumes "startswith s ''/''"
  shows "joinpath PROJECT_ROOT (lstrip CHR ''/'' s)
       = Path ''/'' (p_names PROJECT_ROOT @ p_names (parse_path s))"
proof -
  have "parse_path (lstrip CHR ''/'' s)
      = Path [] (filter (\<lambda>x. x \<noteq> [] \<and> x \<noteq> ''.'') (split_on CHR ''/'' (lstrip CHR ''/'' s)))"
    using lstrip_not_startswith [of "CHR ''/''" s] by (rule parse_path_relative)
  with parse_path_rooted [OF assms] show ?thesis
    by (simp add: joinpath_def Let_def PROJECT_ROOT_eq)
qed

text \<open>
  C3. When the part of the link before the first \<open>#\<close> starts with \<open>/\<close>,
  \<open>resolve_link\<close> returns the project root joined with that part stripped of its
  leading slashes, whatever the source file and the filesystem are. The result is the
  project root followed by the names of the path portion.
\<close>

theorem resolve_link_root_relative:
  assumes "startswith (split_first CHR ''#'' link) ''/''"
  shows "resolve_link fs source_file link
           = Inr (Some (joinpath PROJECT_ROOT (lstrip CHR ''/'' (split_first CHR ''#'' link)))) \<and>
         resolve_link fs' source_file' link = resolve_link fs source_file link \<and>
         joinpath PROJECT_ROOT (lstrip CHR ''/'' (split_first CHR ''#'' link))
           = Path ''/'' (p_names PROJECT_ROOT @ p_names (parse_path (split_first CHR ''#'' link)))"
proof -
  from assms have ne: "split_first CHR ''#'' link \<noteq> []"
    by (auto simp: startswith_def)
  have "resolve_link f s link
      = Inr (Some (joinpath PROJECT_ROOT (lstrip CHR ''/'' (split_first CHR ''#'' link))))" for f s
    using assms ne by (simp add: resolve_link_def Let_def)
  with joinpath_root_relative [OF assms] show ?thesis by simp
qed

theorem resolve_link_root_relative_witness:
  "startswith (split_first CHR ''#'' ''/docs/b.md#top'') ''/'' \<and>
   resolve_link fs_example (Path ''/'' (p_names PROJECT_ROOT @ [''docs'', ''deep'', ''a.md''])) ''/docs/b.md#top''
     = Inr (Some (Path ''/'' [''Users'', ''matteoscurati'', ''work'', ''api.8004.dev'', ''docs'', ''b.md''])) \<and>
   resolve_link fs_example (Path ''/'' (p_names PROJECT_ROOT @ [''README.md''])) ''/docs/b.md#top''
     = resolve_link fs_example (Path ''/'' (p_names PROJECT_ROOT @ [''docs'', ''deep'', ''a.md''])) ''/docs/b.md#top''"
proof -
  have pre: "startswith (split_first CHR ''#'' ''/docs/b.md#top'') ''/''"
    by code_simp
  have val: "joinpath PROJECT_ROOT (lstrip CHR ''/'' (split_first CHR ''#'' ''/docs/b.md#top''))
      = Path ''/'' [''Users'', ''matteoscurati'', ''work'', ''api.8004.dev'', ''docs'', ''b.md'']"
    by code_simp
  from resolve_link_root_relative
    [OF pre, of fs_example "Path ''/'' (p_names PROJECT_ROOT @ [''docs'', ''deep'', ''a.md''])"
       fs_example "Path ''/'' (p_names PROJECT_ROOT @ [''README.md''])"] pre val
  show ?thesis by simp
qed

subsection \<open>Files that are skipped\<close>

lemma process_link_frame:
  assumes "findings s1 = findings s2"
  shows "map_sum id findings (process_link fs md_file item s1)
       = map_sum id findings (process_link fs md_file item s2)"
  using assms
  by (cases item)
     (simp add: process_link_def findings_def Let_def split: sum.splits option.splits)

lemma process_links_frame:
  assumes "findings s1 = findings s2"
  shows "map_sum id findings (process_links fs md_file links s1)
       = map_sum id findings (process_links fs md_file links s2)"
  using assms
proof (induction links arbitrary: s1 s2)
  case Nil
  then show ?case by simp
next
  case (Cons item links)
  from process_link_frame [OF Cons.prems, of fs md_file item]
  show ?case
    by (cases "process_link fs md_file item s1"; cases "process_link fs md_file item s2")
       (auto dest: Cons.IH)
qed

lemma process_file_frame:
  assumes "findings s1 = findings s2"
  shows "map_sum id findings (process_file fs md_file s1)
       = map_sum id findings (process_file fs md_file s2)"
proof -
  have upd: "findings (s\<lparr>total_files := n\<rparr>) = findings s"
    "findings (print l s) = findings s" for s n l
    by (simp_all add: findings_def print_def)
  have "map_sum id findings (process_links fs md_file links (s1\<lparr>total_files := total_files s1 + 1\<rparr>))
      = map_sum id findings (process_links fs md_file links (s2\<lparr>total_files := total_files s2 + 1\<rparr>))"
    for links
    by (rule process_links_frame) (simp add: upd assms)
  with assms show ?thesis
    by (simp add: process_file_def Let_def upd split: sum.splits)
qed

lemma process_files_frame:
  assumes "findings s1 = findings s2"
  shows "map_sum id findings (process_files fs mds s1)
       = map_sum id findings (process_files fs mds s2)"
  using assms
proof (induction mds arbitrary: s1 s2)
  case Nil
  then show ?case by simp
next
  case (Cons md_file mds)
  from process_file_frame [OF Cons.prems, of fs md_file]
  show ?case
    by (cases "process_file fs md_file s1"; cases "process_file fs md_file s2")
       (auto dest: Cons.IH)
qed

lemma process_files_append:
  "process_files fs (xs @ ys) st =
     (case process_files fs xs st of Inl e \<Rightarrow> Inl e | Inr s \<Rightarrow> process_files fs ys s)"
  by (induction xs arbitrary: st) (simp_all split: sum.splits)

lemma process_file_unreadable:
  assumes "is_file fs md_file = Inr True" and "fs_read_text fs md_file = Inl msg"
    and "md_file = Path ''/'' (p_names PROJECT_ROOT @ rel)"
  shows "process_file fs md_file st
       = Inr (print (sym_warning @ ''  Could not read '' @ path_str (Path [] rel) @ '': '' @ msg)
                (st\<lparr>total_files := total_files st + 1\<rparr>))"
proof -
  have "relative_to md_file PROJECT_ROOT = Inr (Path [] rel)"
    using relative_to_under_root [of rel] assms(3) by (simp add: PROJECT_ROOT_eq)
  with assms(1,2) show ?thesis by (simp add: process_file_def Let_def)
qed

lemma process_file_not_regular:
  "is_file fs md_file = Inr False \<Longrightarrow> process_file fs md_file st = Inr st"
  by (simp add: process_file_def)


lemma process_files_drop:
  assumes "\<And>s. map_sum id findings (process_file fs md_file s) = Inr (findings s)"
  shows "map_sum id findings (process_files fs (before @ md_file # after) st)
       = map_sum id findings (process_files fs (before @ after) st)"
proof (cases "process_files fs before st")
  case (Inl e)
  then show ?thesis by (simp add: process_files_append)
next
  case (Inr s)
  from assms [of s] obtain s' where s': "process_file fs md_file s = Inr s'"
    and same: "findings s' = findings s"
    by (cases "process_file fs md_file s") auto
  from Inr s' process_files_frame [OF same, of fs after] show ?thesis
    by (simp add: process_files_append)
qed

lemma exit_code_findings:
  "findings s1 = findings s2 \<Longrightarrow> fst (finish s1) = fst (finish s2)"
  by (simp add: finish_code findings_def)

text \<open>
  C6 as stated fails: the file that cannot be read is counted as scanned.
\<close>

theorem unreadable_file_counted:
  "md_files fs_unreadable = Inr [Path ''/'' (p_names PROJECT_ROOT @ [''bad.md''])] \<and>
   fs_read_text fs_unreadable (Path ''/'' (p_names PROJECT_ROOT @ [''bad.md'']))
     = Inl ''invalid start byte'' \<and>
   map_sum id total_files (scan fs_unreadable) = Inr 1"
  by code_simp

text \<open>
  C6, amended. A markdown file whose read fails is counted as a scanned file, a warning
  with its path relative to the project root and the message of the error is printed,
  and nothing else of the state changes: no link of it is processed. The run goes on,
  and the counters of checked and broken links, the broken-link records, the existence
  tests and the exit code are those of the run without that file.
\<close>

theorem unreadable_file_warned_and_skipped:
  assumes "is_file fs md_file = Inr True" and "fs_read_text fs md_file = Inl msg"
    and "md_file = Path ''/'' (p_names PROJECT_ROOT @ rel)"
  shows "process_file fs md_file st
           = Inr (print (sym_warning @ ''  Could not read '' @ path_str (Path [] rel)
                          @ '': '' @ msg)
                    (st\<lparr>total_files := total_files st + 1\<rparr>)) \<and>
         map_sum id findings (process_files fs (before @ md_file # after) st)
           = map_sum id findings (process_files fs (before @ after) st) \<and>
         map_sum id (\<lambda>s. fst (finish s)) (process_files fs (before @ md_file # after) st)
           = map_sum id (\<lambda>s. fst (finish s)) (process_files fs (before @ after) st)"
proof -
  have step: "process_file fs md_file s
      = Inr (print (sym_warning @ ''  Could not read '' @ path_str (Path [] rel) @ '': '' @ msg)
               (s\<lparr>total_files := total_files s + 1\<rparr>))" for s
    using assms by (rule process_file_unreadable)
  have "map_sum id findings (process_file fs md_file s) = Inr (findings s)" for s
    by (simp add: step findings_def print_def)
  then have drop: "map_sum id findings (process_files fs (before @ md_file # after) st)
      = map_sum id findings (process_files fs (before @ after) st)"
    by (rule process_files_drop)
  have "map_sum id (\<lambda>s. fst (finish s)) (process_files fs (before @ md_file # after) st)
      = map_sum id (\<lambda>s. fst (finish s)) (process_files fs (before @ after) st)"
    using drop
    by (cases "process_files fs (before @ md_file # after) st";
        cases "process_files fs (before @ after) st")
       (auto dest: exit_code_findings)
  with step drop show ?thesis by simp
qed

theorem unreadable_file_warned_and_skipped_witness:
  "is_file fs_unreadable (Path ''/'' (p_names PROJECT_ROOT @ [''bad.md''])) = Inr True \<and>
   process_file fs_unreadable (Path ''/'' (p_names PROJECT_ROOT @ [''bad.md''])) initial_state
     = Inr (print (sym_warning @ ''  Could not read bad.md: invalid start byte'')
              (initial_state\<lparr>total_files := 1\<rparr>)) \<and>
   map_sum id findings
      (process_files fs_unreadable ([] @ Path ''/'' (p_names PROJECT_ROOT @ [''bad.md'']) # [])
         initial_state)
     = Inr (findings initial_state)"
proof -
  have a: "is_file fs_unreadable (Path ''/'' (p_names PROJECT_ROOT @ [''bad.md''])) = Inr True"
    by code_simp
  have b: "fs_read_text fs_unreadable (Path ''/'' (p_names PROJECT_ROOT @ [''bad.md'']))
      = Inl ''invalid start byte''"
    by code_simp
  have c: "path_str (Path [] [''bad.md'']) = ''bad.md''" by code_simp
  have d: "total_files initial_state + 1 = 1" by (simp add: initial_state_def)
  from unreadable_file_warned_and_skipped [OF a b refl, of initial_state "[]" "[]"] a c d
  show ?thesis by (simp add: findings_def print_def)
qed

text \<open>
  C8 as stated fails: a path that is no regular file is passed over without any output.
\<close>

theorem vanished_file_no_warning:
  "md_files fs_vanished = Inr [Path ''/'' (p_names PROJECT_ROOT @ [''gone.md''])] \<and>
   is_file fs_vanished (Path ''/'' (p_names PROJECT_ROOT @ [''gone.md''])) = Inr False \<and>
   map_sum id printed (scan fs_vanished) = Inr (printed initial_state) \<and>
   map_sum id total_files (scan fs_vanished) = Inr 0"
  by code_simp

text \<open>
  C8, amended. An enumerated path that is not a regular file when the auditor tests it is
  skipped silently: the whole state, with the files-scanned counter and the output, stays
  as it was, and the run is the run without that path.
\<close>

theorem non_regular_path_skipped_silently:
  assumes "is_file fs md_file = Inr False"
  shows "process_file fs md_file st = Inr st \<and>
         process_files fs (before @ md_file # after) st
           = process_files fs (before @ after) st"
proof -
  have step: "process_file fs md_file s = Inr s" for s
    using assms by (rule process_file_not_regular)
  then have "process_files fs (before @ md_file # after) st
      = process_files fs (before @ after) st"
    by (simp add: process_files_append split: sum.splits)
  with step show ?thesis by simp
qed

theorem non_regular_path_skipped_silently_witness:
  "is_file fs_vanished (Path ''/'' (p_names PROJECT_ROOT @ [''gone.md''])) = Inr False \<and>
   process_file fs_vanished (Path ''/'' (p_names PROJECT_ROOT @ [''gone.md''])) initial_state
     = Inr initial_state \<and>
   process_files fs_vanished ([] @ Path ''/'' (p_names PROJECT_ROOT @ [''gone.md'']) # [])
       initial_state
     = Inr initial_state"
proof -
  have a: "is_file fs_vanished (Path ''/'' (p_names PROJECT_ROOT @ [''gone.md''])) = Inr False"
    by code_simp
  from non_regular_path_skipped_silently [OF a, of initial_state "[]" "[]"] a
  show ?thesis by simp
qed

subsection \<open>Broken-link records\<close>

lemma shown_target_eq:
  "shown_target target
     = Inr (if is_relative_to target PROJECT_ROOT
            then Path [] (drop (length (p_names PROJECT_ROOT)) (p_names target))
            else target)"
  by (simp add: shown_target_def is_relative_to_def relative_to_def)

lemma is_relative_to_rejoin:
  assumes "is_relative_to target PROJECT_ROOT"
  shows "target = Path (p_root PROJECT_ROOT)
                    (p_names PROJECT_ROOT @ drop (length (p_names PROJECT_ROOT)) (p_names target))"
proof -
  from assms have r: "p_root target = p_root PROJECT_ROOT"
    and n: "take (length (p_names PROJECT_ROOT)) (p_names target) = p_names PROJECT_ROOT"
    by (auto simp: is_relative_to_def relative_to_def split: if_splits)
  have "p_names target = take (length (p_names PROJECT_ROOT)) (p_names target)
      @ drop (length (p_names PROJECT_ROOT)) (p_names target)"
    by simp
  with n have "p_names target
      = p_names PROJECT_ROOT @ drop (length (p_names PROJECT_ROOT)) (p_names target)"
    by simp
  with r show ?thesis by (cases target) simp
qed

text \<open>
  C7 as stated fails: for a target under the project root the record holds the path
  relative to the project root, not the resolved absolute path.
\<close>

theorem broken_record_target_is_relative:
  "resolve_link fs_example (Path ''/'' (p_names PROJECT_ROOT @ [''docs'', ''a.md''])) ''missing.md''
     = Inr (Some (Path ''/'' [''Users'', ''matteoscurati'', ''work'', ''api.8004.dev'',
                              ''docs'', ''missing.md''])) \<and>
   map_sum id (\<lambda>s. map bd_target (broken_details s))
      (process_link fs_example (Path ''/'' (p_names PROJECT_ROOT @ [''docs'', ''a.md'']))
         (''Missing'', ''missing.md'') initial_state)
     = Inr [Path [] [''docs'', ''missing.md'']]"
  by code_simp

text \<open>
  C7, amended. Processing a link appends one broken-link record exactly when the link is
  checked (neither external nor anchor-only), resolves to a target, and that target does
  not exist; in every other completed case the records and the broken-link counter are
  unchanged. The record holds the source file relative to the project root, the raw link
  target, the link label, and the resolved target: relative to the project root when the
  target lies under it (the project root joined with the stored path is then the resolved
  absolute target), and the resolved absolute path otherwise.
\<close>

theorem broken_record_exactly_when_missing:
  assumes "process_link fs md_file (text, link) st = Inr st'"
  shows "(\<exists>target src.
            \<not> is_external_link link \<and> \<not> is_anchor_only link \<and>
            resolve_link fs md_file link = Inr (Some target) \<and>
            exists fs target = Inr False \<and>
            relative_to md_file PROJECT_ROOT = Inr src \<and>
            broken_details st' = broken_details st @
              [\<lparr>bd_source = src, bd_link = link,
                bd_target = (if is_relative_to target PROJECT_ROOT
                             then Path [] (drop (length (p_names PROJECT_ROOT)) (p_names target))
                             else target),
                bd_text = text\<rparr>] \<and>
            broken_links st' = broken_links st + 1 \<and>
            (is_relative_to target PROJECT_ROOT \<longrightarrow>
               target = Path (p_root PROJECT_ROOT)
                          (p_names PROJECT_ROOT
                             @ drop (length (p_names PROJECT_ROOT)) (p_names target))))
         \<or>
         ((is_external_link link \<or> is_anchor_only link \<or>
           resolve_link fs md_file link = Inr None \<or>
           (\<exists>target. resolve_link fs md_file link = Inr (Some target) \<and>
                      exists fs target = Inr True)) \<and>
          broken_details st' = broken_details st \<and>
          broken_links st' = broken_links st)"
proof (cases "is_external_link link \<or> is_anchor_only link")
  case True
  with assms process_link_skip [OF True, of fs md_file "text" st] show ?thesis by auto
next
  case False
  show ?thesis
  proof (cases "resolve_link fs md_file link")
    case (Inl e)
    with assms False show ?thesis by (simp add: process_link_def Let_def)
  next
    case (Inr r)
    show ?thesis
    proof (cases r)
      case None
      with assms False Inr show ?thesis by (auto simp: process_link_def Let_def)
    next
      case (Some target)
      show ?thesis
      proof (cases "exists fs target")
        case (Inl e)
        with assms False Inr Some show ?thesis by (simp add: process_link_def Let_def)
      next
        case found: (Inr found)
        show ?thesis
        proof (cases found)
          case True
          with assms False Inr Some found show ?thesis
            by (auto simp: process_link_def Let_def)
        next
          case missing: False
          from assms False Inr Some found missing obtain src where
            src: "relative_to md_file PROJECT_ROOT = Inr src"
            by (cases "relative_to md_file PROJECT_ROOT") (auto simp: process_link_def Let_def)
          from assms False Inr Some found missing src
          have rec: "broken_details st' = broken_details st @
              [\<lparr>bd_source = src, bd_link = link,
                bd_target = (if is_relative_to target PROJECT_ROOT
                             then Path [] (drop (length (p_names PROJECT_ROOT)) (p_names target))
                             else target),
                bd_text = text\<rparr>] \<and>
            broken_links st' = broken_links st + 1"
            by (auto simp: process_link_def Let_def shown_target_eq)
          have "\<not> is_external_link link \<and> \<not> is_anchor_only link \<and>
            resolve_link fs md_file link = Inr (Some target) \<and>
            exists fs target = Inr False \<and>
            relative_to md_file PROJECT_ROOT = Inr src"
            using False Inr Some found missing src by simp
          with rec is_relative_to_rejoin [of target] show ?thesis
            by (intro disjI1 exI [of _ target] exI [of _ src]) simp

        qed
      qed
    qed
  qed
qed

theorem broken_record_exactly_when_missing_witness:
  "\<exists>st'. process_link fs_example (Path ''/'' (p_names PROJECT_ROOT @ [''docs'', ''a.md'']))
            (''Missing'', ''missing.md'') initial_state = Inr st' \<and>
         broken_links st' = 1 \<and>
         broken_details st' =
           [\<lparr>bd_source = Path [] [''docs'', ''a.md''], bd_link = ''missing.md'',
             bd_target = Path [] [''docs'', ''missing.md''], bd_text = ''Missing''\<rparr>]"
proof -
  let ?md = "Path ''/'' (p_names PROJECT_ROOT @ [''docs'', ''a.md''])"
  let ?t = "Path ''/'' [''Users'', ''matteoscurati'', ''work'', ''api.8004.dev'',
                        ''docs'', ''missing.md'']"
  have "map_sum id total_links (process_link fs_example ?md (''Missing'', ''missing.md'') initial_state)
      = Inr 1"
    by code_simp
  then obtain st' where run:
    "process_link fs_example ?md (''Missing'', ''missing.md'') initial_state = Inr st'"
    by (cases "process_link fs_example ?md (''Missing'', ''missing.md'') initial_state") auto
  have res: "resolve_link fs_example ?md ''missing.md'' = Inr (Some ?t)" by code_simp
  have ex: "exists fs_example ?t = Inr False" by code_simp
  have src: "relative_to ?md PROJECT_ROOT = Inr (Path [] [''docs'', ''a.md''])" by code_simp
  have rel: "is_relative_to ?t PROJECT_ROOT" by code_simp
  have dr: "drop (length (p_names PROJECT_ROOT)) (p_names ?t) = [''docs'', ''missing.md'']"
    by code_simp
  have init: "broken_details initial_state = [] \<and> broken_links initial_state = 0"
    by (simp add: initial_state_def)
  have chk: "\<not> is_external_link ''missing.md'' \<and> \<not> is_anchor_only ''missing.md''"
    by code_simp
  from broken_record_exactly_when_missing [OF run] res ex src rel dr init chk
  have "broken_links st' = 1 \<and>
      broken_details st' =
        [\<lparr>bd_source = Path [] [''docs'', ''a.md''], bd_link = ''missing.md'',
          bd_target = Path [] [''docs'', ''missing.md''], bd_text = ''Missing''\<rparr>]"
    by auto
  with run show ?thesis by blast
qed

subsection \<open>The markdown file set\<close>

lemma collect_patterns:
  "collect fs patterns [] = Inr (root_glob fs ''docs/**/*.md'' @ root_glob fs ''*.md'')"
  by (simp add: patterns_def joinpath_def parse_path_def splitroot_def PROJECT_ROOT_eq
        relative_to_def path_str_def Let_def)

lemma md_files_eq:
  "md_files fs
     = Inr (sort_key cparts (remdups (root_glob fs ''docs/**/*.md'' @ root_glob fs ''*.md'')))"
  by (simp add: md_files_def collect_patterns)

lemma cparts_inj_rooted:
  assumes "p_root p = ''/''" and "p_root q = ''/''" and "cparts p = cparts q"
  shows "p = q"
  using assms by (cases p; cases q) (simp add: cparts_def)

lemma root_glob_rooted: "p \<in> set (root_glob fs pat) \<Longrightarrow> p_root p = ''/''"
  by (auto simp: root_glob_def PROJECT_ROOT_eq)

lemma sorted_set_unique:
  assumes "set xs = set ys" and "\<And>p. p \<in> set xs \<Longrightarrow> p_root p = ''/''"
  shows "sort_key cparts (remdups xs) = sort_key cparts (remdups ys)"
proof -
  let ?l = "sort_key cparts (remdups xs)" and ?r = "sort_key cparts (remdups ys)"
  have inj: "inj_on cparts (set xs)"
    using assms(2) by (auto intro!: inj_onI cparts_inj_rooted)
  then have inj': "inj_on cparts (set ys)" using assms(1) by simp
  have "map cparts ?l = map cparts ?r"
  proof (rule sorted_distinct_set_unique)
    show "sorted (map cparts ?l)" and "sorted (map cparts ?r)"
      by (rule sorted_sort_key)+
    show "distinct (map cparts ?l)" using inj by (simp add: distinct_map)
    show "distinct (map cparts ?r)" using inj' by (simp add: distinct_map)
    show "set (map cparts ?l) = set (map cparts ?r)" using assms(1) by simp
  qed
  moreover have "inj_on cparts (set ?l \<union> set ?r)" using inj assms(1) by simp
  ultimately show ?thesis by (simp add: inj_on_map_eq_map)
qed

lemma md_files_sorted:
  assumes "md_files fs = Inr files"
  shows "sorted (map cparts files) \<and> distinct files"
  using assms by (auto simp: md_files_eq sorted_sort_key)

subsection \<open>The scan reads the enumeration only once\<close>

lemma resolve_glob: "resolve (fs\<lparr>fs_glob := g\<rparr>) p = resolve fs p"
  by (simp add: resolve_def Let_def split: sum.splits)

lemma resolve_link_glob:
  "resolve_link (fs\<lparr>fs_glob := g\<rparr>) source_file link = resolve_link fs source_file link"
  by (simp add: resolve_link_def resolve_glob Let_def)

lemma exists_glob: "exists (fs\<lparr>fs_glob := g\<rparr>) p = exists fs p"
  by (simp add: exists_def)

lemma is_file_glob: "is_file (fs\<lparr>fs_glob := g\<rparr>) p = is_file fs p"
  by (simp add: is_file_def)

lemma process_link_glob:
  "process_link (fs\<lparr>fs_glob := g\<rparr>) md_file item st = process_link fs md_file item st"
  by (simp add: process_link_def resolve_link_glob exists_glob Let_def
        split: prod.splits sum.splits option.splits)

lemma process_links_glob:
  "process_links (fs\<lparr>fs_glob := g\<rparr>) md_file links st = process_links fs md_file links st"
  by (induction links arbitrary: st) (simp_all add: process_link_glob split: sum.splits)

lemma process_file_glob:
  "process_file (fs\<lparr>fs_glob := g\<rparr>) md_file st = process_file fs md_file st"
  by (simp add: process_file_def is_file_glob process_links_glob Let_def split: sum.splits)

lemma process_files_glob:
  "process_files (fs\<lparr>fs_glob := g\<rparr>) mds st = process_files fs mds st"
  by (induction mds arbitrary: st) (simp_all add: process_file_glob split: sum.splits)

text \<open>
  C9. Two runs over the same file tree give the same result, whatever order and
  repetitions the directory enumeration has: when two filesystems enumerate the same set
  of names for each of the two patterns and agree on everything else, the markdown file
  lists are equal, and so are the scans and the whole runs (exit code, counters, the
  ordered broken-link records and the output). The markdown file list is sorted and
  without duplicates.
\<close>

theorem audit_order_stable:
  assumes "set (fs_glob fs1 ''docs/**/*.md'') = set (fs_glob fs2 ''docs/**/*.md'')"
    and "set (fs_glob fs1 ''*.md'') = set (fs_glob fs2 ''*.md'')"
    and "fs_stat fs1 = fs_stat fs2" and "fs_read_text fs1 = fs_read_text fs2"
    and "fs_symlinks fs1 = fs_symlinks fs2" and "fs_cwd fs1 = fs_cwd fs2"
  shows "md_files fs1 = md_files fs2 \<and>
         scan fs1 = scan fs2 \<and>
         audit_documentation fs1 = audit_documentation fs2 \<and>
         (\<exists>files. md_files fs1 = Inr files \<and> sorted (map cparts files) \<and> distinct files)"
proof -
  let ?xs = "root_glob fs1 ''docs/**/*.md'' @ root_glob fs1 ''*.md''"
  let ?ys = "root_glob fs2 ''docs/**/*.md'' @ root_glob fs2 ''*.md''"
  have "set ?xs = set ?ys" using assms(1,2) by (simp add: root_glob_def)
  moreover have "p_root p = ''/''" if "p \<in> set ?xs" for p
    using that root_glob_rooted by auto
  ultimately have "sort_key cparts (remdups ?xs) = sort_key cparts (remdups ?ys)"
    by (rule sorted_set_unique)
  then have md: "md_files fs1 = md_files fs2" by (simp add: md_files_eq)
  have "fs2 = fs1\<lparr>fs_glob := fs_glob fs2\<rparr>" using assms(3-6) by simp
  then have "process_files fs2 mds st = process_files fs1 mds st" for mds st
    using process_files_glob [where fs = fs1 and g = "fs_glob fs2"] by simp
  with md have sc: "scan fs1 = scan fs2" by (simp add: scan_def split: sum.splits)
  then have "audit_documentation fs1 = audit_documentation fs2"
    by (simp add: audit_documentation_def)
  moreover have "\<exists>files. md_files fs1 = Inr files \<and> sorted (map cparts files) \<and> distinct files"
    using md_files_sorted [of fs1] by (simp add: md_files_eq)
  ultimately show ?thesis using md sc by simp
qed

theorem audit_order_stable_witness:
  "fs_glob fs_listing1 ''docs/**/*.md'' \<noteq> fs_glob fs_listing2 ''docs/**/*.md'' \<and>
   md_files fs_listing1 = md_files fs_listing2 \<and>
   audit_documentation fs_listing1 = audit_documentation fs_listing2 \<and>
   map_sum id (\<lambda>r. (fst r, total_files (snd r), total_links (snd r), broken_links (snd r)))
     (audit_documentation fs_listing1) = Inr (1, 2, 3, 2)"
proof -
  have g: "set (fs_glob fs_listing1 ''docs/**/*.md'') = set (fs_glob fs_listing2 ''docs/**/*.md'')
      \<and> set (fs_glob fs_listing1 ''*.md'') = set (fs_glob fs_listing2 ''*.md'')
      \<and> fs_glob fs_listing1 ''docs/**/*.md'' \<noteq> fs_glob fs_listing2 ''docs/**/*.md''"
    by (simp add: fs_listing1_def fs_listing2_def insert_commute)
  have run: "map_sum id (\<lambda>r. (fst r, total_files (snd r), total_links (snd r), broken_links (snd r)))
     (audit_documentation fs_listing1) = Inr (1, 2, 3, 2)"
    by code_simp
  from audit_order_stable [of fs_listing1 fs_listing2] g run
  show ?thesis by (simp add: fs_listing2_def)
qed

subsection \<open>Splitting and joining\<close>











subsection \<open>Normalization\<close>







subsection \<open>The walk of \<open>resolve\<close>\<close>














subsection \<open>\<open>resolve\<close>\<close>








subsection \<open>Relative links\<close>



lemma no_link_on_walk_empty: "no_link_on_walk [] path rest"
  by (induction rest arbitrary: path) simp_all





end
